theory Spec2Isabelle
  imports Main
begin

section \<open>Python strings\<close>

text \<open>
  A Python \<open>str\<close> is modelled as a \<open>string\<close>, one \<open>char\<close> per code point, for code
  points below 256. On that range \<open>str.isspace\<close> holds exactly for the code points
  9 to 13, 28 to 32, 133 and 160, and \<open>str.lower\<close> adds 32 to the code points 65 to 90
  and 192 to 222 (215 excepted) and leaves every other one as it is.
\<close>

definition is_space :: "char \<Rightarrow> bool" where
  "is_space c =
     (let n = (of_char c :: nat)
      in (9 \<le> n \<and> n \<le> 13) \<or> (28 \<le> n \<and> n \<le> 32) \<or> n = 133 \<or> n = 160)"

definition lower_char :: "char \<Rightarrow> char" where
  "lower_char c =
     (let n = (of_char c :: nat)
      in if (65 \<le> n \<and> n \<le> 90) \<or> (192 \<le> n \<and> n \<le> 222 \<and> n \<noteq> 215)
         then char_of (n + 32) else c)"

text \<open>\<open>s.lower()\<close>\<close>

definition lower :: "string \<Rightarrow> string" where
  "lower s = map lower_char s"

text \<open>\<open>s.strip()\<close>: whitespace removed at both ends.\<close>

definition strip :: "string \<Rightarrow> string" where
  "strip s = rev (dropWhile is_space (rev (dropWhile is_space s)))"

text \<open>\<open>s.startswith(p)\<close>\<close>

fun startswith :: "string \<Rightarrow> string \<Rightarrow> bool" where
  "startswith s [] = True"
| "startswith [] (p # ps) = False"
| "startswith (c # cs) (p # ps) = (c = p \<and> startswith cs ps)"

text \<open>\<open>needle in hay\<close> on strings: \<open>needle\<close> occurs in \<open>hay\<close> as a contiguous run.\<close>

fun str_in :: "string \<Rightarrow> string \<Rightarrow> bool" where
  "str_in needle [] = (needle = [])"
| "str_in needle (c # cs) = (startswith (c # cs) needle \<or> str_in needle cs)"

text \<open>\<open>sep.join(xs)\<close>\<close>

fun join :: "string \<Rightarrow> string list \<Rightarrow> string" where
  "join sep [] = []"
| "join sep [x] = x"
| "join sep (x # y # ys) = x @ sep @ join sep (y # ys)"

text \<open>\<open>s.split(sep)\<close> for a separator of one character: one more part than there are
  separators in \<open>s\<close>, empty parts kept.\<close>

fun split :: "string \<Rightarrow> char \<Rightarrow> string list" where
  "split [] sep = [ [] ]"
| "split (c # cs) sep =
     (if c = sep then [] # split cs sep
      else (case split cs sep of
              [] \<Rightarrow> [ [c] ]
            | p # ps \<Rightarrow> (c # p) # ps))"

text \<open>\<open>str(n)\<close> for a length or a count: the decimal digits, no leading zero.\<close>

definition digit_char :: "nat \<Rightarrow> char" where
  "digit_char d = char_of (48 + d)"

fun str_nat :: "nat \<Rightarrow> string" where
  "str_nat n = (if n < 10 then [digit_char n] else str_nat (n div 10) @ [digit_char (n mod 10)])"

declare str_nat.simps [simp del]

section \<open>The matcher\<close>

text \<open>
  The HTML library is outside the program. Its four operations used by
  \<open>page_contains_text\<close> are parameters: \<open>parse_html\<close> is \<open>BeautifulSoup(html, "html.parser")\<close>,
  \<open>select_css\<close> is \<open>soup.select(css_selector)\<close> for a well-formed selector,
  \<open>element_text\<close> is \<open>el.get_text(separator=" ", strip=True)\<close> on a selected element and
  \<open>document_text\<close> is the same call on the whole document.
\<close>

record ('doc, 'el) bs4 =
  parse_html :: "string \<Rightarrow> 'doc"
  select_css :: "'doc \<Rightarrow> string \<Rightarrow> 'el list"
  element_text :: "'el \<Rightarrow> string"
  document_text :: "'doc \<Rightarrow> string"

text \<open>The text that is searched: lines 61 to 66 of \<open>monitor.py\<close>.\<close>

definition haystack :: "('doc, 'el) bs4 \<Rightarrow> string \<Rightarrow> string \<Rightarrow> string" where
  "haystack lib html css_selector =
     (let soup = parse_html lib html
      in if css_selector \<noteq> []
         then join '' '' (map (element_text lib) (select_css lib soup css_selector))
         else document_text lib soup)"

definition page_contains_text :: "('doc, 'el) bs4 \<Rightarrow> string \<Rightarrow> string \<Rightarrow> string \<Rightarrow> bool" where
  "page_contains_text lib html text css_selector =
     str_in (lower text) (lower (haystack lib html css_selector))"

section \<open>Configuration\<close>

text \<open>
  The environment as the module holds it once it is loaded: the text of each variable,
  \<open>None\<close> for a variable that is not set, and for \<open>SMTP_PORT\<close> the number that \<open>int\<close>
  has made of its text. The conversion itself, which can fail and then ends the program
  before \<open>main\<close> is called, is in the section on loading the module below. The HTTP
  timeout and the delay between requests are numbers handed to the libraries and have no
  part in what follows. Log lines are not modelled.
\<close>

record environ =
  env_TARGET_URLS :: "string option"
  env_SEARCH_TEXT :: "string option"
  env_RECIPIENT_EMAIL :: "string option"
  env_SMTP_SERVER :: "string option"
  env_SMTP_PORT :: "int option"
  env_SMTP_USER :: "string option"
  env_SMTP_PASS :: "string option"
  env_CSS_SELECTOR :: "string option"

text \<open>\<open>os.getenv(name, default)\<close>\<close>

definition getenv :: "'a option \<Rightarrow> 'a \<Rightarrow> 'a" where
  "getenv v dflt = (case v of None \<Rightarrow> dflt | Some x \<Rightarrow> x)"

definition TARGET_URLS_RAW :: "environ \<Rightarrow> string" where
  "TARGET_URLS_RAW env = strip (getenv (env_TARGET_URLS env) [])"

definition SEARCH_TEXT :: "environ \<Rightarrow> string" where
  "SEARCH_TEXT env = strip (getenv (env_SEARCH_TEXT env) ''SOLD OUT'')"

definition RECIPIENT :: "environ \<Rightarrow> string" where
  "RECIPIENT env = strip (getenv (env_RECIPIENT_EMAIL env) ''slava15.92@gmail.com'')"

definition SMTP_SERVER :: "environ \<Rightarrow> string option" where
  "SMTP_SERVER env = env_SMTP_SERVER env"

definition SMTP_PORT :: "environ \<Rightarrow> int" where
  "SMTP_PORT env = getenv (env_SMTP_PORT env) 587"

definition SMTP_USER :: "environ \<Rightarrow> string option" where
  "SMTP_USER env = env_SMTP_USER env"

definition SMTP_PASS :: "environ \<Rightarrow> string option" where
  "SMTP_PASS env = env_SMTP_PASS env"

definition CSS_SELECTOR :: "environ \<Rightarrow> string" where
  "CSS_SELECTOR env = strip (getenv (env_CSS_SELECTOR env) [])"

section \<open>The outside world\<close>

text \<open>
  What \<open>json.loads\<close> returns on a text that starts with \<open>[\<close>: it raises (\<open>None\<close>) or
  returns a list, whose elements are strings or something else.
\<close>

datatype json_value = JStr string | JOther

text \<open>
  \<open>requests.get\<close> raises, or returns a response with a status code and a decoded body.
\<close>

datatype http_result = Raised | Response nat string

record email =
  msg_From :: string
  msg_To :: string
  msg_Subject :: string
  msg_content :: string

text \<open>
  The step of the \<open>try\<close> block of \<open>send_email\<close> that raises, if any: building the
  message, opening the connection, \<open>starttls\<close>, \<open>login\<close>, \<open>send_message\<close>, or the
  \<open>QUIT\<close> that leaving the \<open>with\<close> block sends.
\<close>

datatype smtp_fault =
  NoFault | MessageFault | ConnectFault | StartTlsFault | LoginFault | SendFault | QuitFault

text \<open>
  The libraries' answers are parameters of the run. The answer to an HTTP request may
  depend on how many requests the run has made before it, so that the same URL listed
  twice may be answered differently.
\<close>

record ('doc, 'el) externals =
  http :: "nat \<Rightarrow> string \<Rightarrow> http_result"
  bs :: "('doc, 'el) bs4"
  json_loads :: "string \<Rightarrow> json_value list option"
  smtp :: "email \<Rightarrow> smtp_fault"

text \<open>What the run does to the world, in order: each call is recorded when it is made.\<close>

datatype event =
    HttpGet string
  | Sleep
  | SmtpConnect string int
  | SmtpStartTls
  | SmtpLogin string string
  | SmtpSendMessage email
  | SmtpQuit

type_synonym trace = "event list"

fun is_http :: "event \<Rightarrow> bool" where
  "is_http (HttpGet u) = True"
| "is_http e = False"

fun is_smtp :: "event \<Rightarrow> bool" where
  "is_smtp (HttpGet u) = False"
| "is_smtp Sleep = False"
| "is_smtp e = True"

fun is_send :: "event \<Rightarrow> bool" where
  "is_send (SmtpSendMessage m) = True"
| "is_send e = False"

definition requests_made :: "trace \<Rightarrow> nat" where
  "requests_made tr = length (filter is_http tr)"

section \<open>URL list parsing\<close>

text \<open>\<open>[u.strip() for u in arr if isinstance(u, str) and u.strip()]\<close>\<close>

fun stripped_strs :: "json_value list \<Rightarrow> string list" where
  "stripped_strs [] = []"
| "stripped_strs (JStr u # arr) =
     (if strip u \<noteq> [] then strip u # stripped_strs arr else stripped_strs arr)"
| "stripped_strs (JOther # arr) = stripped_strs arr"

text \<open>The loop over the separators, lines 41 to 45: the first separator that occurs in
  \<open>raw\<close> decides, and the loop stops there.\<close>

fun split_parts :: "char list \<Rightarrow> string \<Rightarrow> string list" where
  "split_parts [] raw = []"
| "split_parts (sep # seps) raw =
     (if sep \<in> set raw
      then filter (\<lambda>p. p \<noteq> []) (map strip (split raw sep))
      else split_parts seps raw)"

definition parse_urls :: "('doc, 'el) externals \<Rightarrow> string \<Rightarrow> string list" where
  "parse_urls ext raw =
     (if raw = [] then []
      else (case (if startswith raw ''['' then json_loads ext raw else None) of
              Some arr \<Rightarrow> stripped_strs arr
            | None \<Rightarrow>
                (let parts = split_parts [CHR 0x0A, CHR '',''] raw
                 in if parts \<noteq> [] then parts else [raw])))"

section \<open>Fetching\<close>

text \<open>\<open>resp.raise_for_status()\<close> raises for the status codes 400 to 599.\<close>

definition fetch_html :: "('doc, 'el) externals \<Rightarrow> string \<Rightarrow> trace \<Rightarrow> string option \<times> trace" where
  "fetch_html ext url tr =
     (case http ext (requests_made tr) url of
        Raised \<Rightarrow> (None, tr @ [HttpGet url])
      | Response status body \<Rightarrow>
          (if 400 \<le> status \<and> status < 600 then (None, tr @ [HttpGet url])
           else (Some body, tr @ [HttpGet url])))"

section \<open>Sending the alert\<close>

definition truthy :: "string option \<Rightarrow> bool" where
  "truthy v = (case v of None \<Rightarrow> False | Some s \<Rightarrow> s \<noteq> [])"

definition send_email :: "environ \<Rightarrow> ('doc, 'el) externals \<Rightarrow> string \<Rightarrow> string \<Rightarrow> trace \<Rightarrow> bool \<times> trace" where
  "send_email env ext subject body tr =
     (if \<not> list_all (\<lambda>b. b)
            [truthy (SMTP_SERVER env), SMTP_PORT env \<noteq> 0, truthy (SMTP_USER env), truthy (SMTP_PASS env)]
      then (False, tr)
      else (case (SMTP_SERVER env, SMTP_USER env, SMTP_PASS env) of
              (Some server, Some user, Some pass) \<Rightarrow>
                (let msg = \<lparr>msg_From = user, msg_To = RECIPIENT env,
                            msg_Subject = subject, msg_content = body\<rparr>;
                     port = SMTP_PORT env
                 in (case smtp ext msg of
                       MessageFault \<Rightarrow> (False, tr)
                     | ConnectFault \<Rightarrow> (False, tr @ [SmtpConnect server port])
                     | StartTlsFault \<Rightarrow>
                         (False, tr @ [SmtpConnect server port, SmtpStartTls, SmtpQuit])
                     | LoginFault \<Rightarrow>
                         (False, tr @ [SmtpConnect server port, SmtpStartTls,
                                       SmtpLogin user pass, SmtpQuit])
                     | SendFault \<Rightarrow>
                         (False, tr @ [SmtpConnect server port, SmtpStartTls,
                                       SmtpLogin user pass, SmtpSendMessage msg, SmtpQuit])
                     | QuitFault \<Rightarrow>
                         (False, tr @ [SmtpConnect server port, SmtpStartTls,
                                       SmtpLogin user pass, SmtpSendMessage msg, SmtpQuit])
                     | NoFault \<Rightarrow>
                         (True, tr @ [SmtpConnect server port, SmtpStartTls,
                                      SmtpLogin user pass, SmtpSendMessage msg, SmtpQuit])))
            | _ \<Rightarrow> (False, tr)))"

section \<open>The pass over the URLs\<close>

text \<open>The loop of \<open>check_urls\<close>, with the two lists and the trace as its state.\<close>

fun check_loop ::
  "('doc, 'el) externals \<Rightarrow> string \<Rightarrow> string \<Rightarrow> string list \<Rightarrow>
   string list \<times> string list \<times> trace \<Rightarrow> string list \<times> string list \<times> trace" where
  "check_loop ext search_text selector [] st = st"
| "check_loop ext search_text selector (url # urls) (hits, misses, tr) =
     (case fetch_html ext url tr of
        (None, tr1) \<Rightarrow>
          check_loop ext search_text selector urls
            (hits, misses @ [url @ '' [fetch error]''], tr1 @ [Sleep])
      | (Some html, tr1) \<Rightarrow>
          (if page_contains_text (bs ext) html search_text selector
           then check_loop ext search_text selector urls (hits @ [url], misses, tr1 @ [Sleep])
           else check_loop ext search_text selector urls (hits, misses @ [url], tr1 @ [Sleep])))"

definition check_urls ::
  "('doc, 'el) externals \<Rightarrow> string list \<Rightarrow> string \<Rightarrow> string \<Rightarrow> trace \<Rightarrow>
   string list \<times> string list \<times> trace" where
  "check_urls ext urls search_text selector tr =
     check_loop ext search_text selector urls ([], [], tr)"

section \<open>The run\<close>

text \<open>The message \<open>main\<close> composes, lines 116 to 130.\<close>

definition subject :: "environ \<Rightarrow> string list \<Rightarrow> string list \<Rightarrow> string" where
  "subject env hits urls =
     ''[ALERT] Found '' @ [CHR 0x27] @ SEARCH_TEXT env @ [CHR 0x27] @ '' on ''
       @ str_nat (length hits) @ ''/'' @ str_nat (length urls) @ '' URL(s)''"

definition not_found_lines :: "string list \<Rightarrow> string list" where
  "not_found_lines misses =
     (if misses \<noteq> [] then map (\<lambda>u. ''- '' @ u) misses else [''- (none)''])"

definition body_lines :: "environ \<Rightarrow> string list \<Rightarrow> string list \<Rightarrow> string list" where
  "body_lines env hits misses =
     [''Search text: '' @ [CHR 0x27] @ SEARCH_TEXT env @ [CHR 0x27],
      ''CSS selector: '' @ [CHR 0x27]
        @ (if CSS_SELECTOR env \<noteq> [] then CSS_SELECTOR env else ''N/A'') @ [CHR 0x27],
      [],
      ''Found on:'']
     @ map (\<lambda>u. ''- '' @ u) hits
     @ [ [],
        ''Not found on:'']
     @ not_found_lines misses
     @ [ [],
        ''Checked by monitor.py'']"

text \<open>\<open>main\<close> returns nothing; the model returns the trace of the run.\<close>

definition main :: "environ \<Rightarrow> ('doc, 'el) externals \<Rightarrow> trace \<Rightarrow> trace" where
  "main env ext tr =
     (let urls = parse_urls ext (TARGET_URLS_RAW env)
      in if urls = [] then tr
         else (case check_urls ext urls (SEARCH_TEXT env) (CSS_SELECTOR env) tr of
                 (hits, misses, tr1) \<Rightarrow>
                   (if hits \<noteq> []
                    then snd (send_email env ext (subject env hits urls)
                                (join [CHR 0x0A] (body_lines env hits misses)) tr1)
                    else tr1)))"

section \<open>Loading the module\<close>


datatype error = ValueError









section \<open>Notions of the specification\<close>

text \<open>
  These two follow the words of the specification, not the code. A string is trimmed
  when it has no whitespace at either end; the entries of a list of items are the items
  trimmed, the empty ones dropped, in the order of the list.
\<close>

definition trimmed :: "string \<Rightarrow> bool" where
  "trimmed s = (case s of [] \<Rightarrow> True | c # cs \<Rightarrow> \<not> is_space c \<and> \<not> is_space (last (c # cs)))"

definition entries :: "string list \<Rightarrow> string list" where
  "entries items = filter (\<lambda>u. u \<noteq> []) (map strip items)"

text \<open>
  The outcome of one URL, as the specification classifies it: a hit, a miss or a fetch
  error. \<open>outcome_of\<close> is the outcome of the URL requested as the \<open>n\<close>-th request of the
  run, \<open>outcomes\<close> those of a list of URLs requested one after the other, \<open>display\<close> the
  text under which a URL that is not a hit is reported, and \<open>visits\<close> what a pass over
  the URLs does to the world: one request and one pause for each.
\<close>

datatype outcome = Hit | Miss | FetchError

definition outcome_of :: "('doc, 'el) externals \<Rightarrow> string \<Rightarrow> string \<Rightarrow> nat \<Rightarrow> string \<Rightarrow> outcome" where
  "outcome_of ext search_text selector n url =
     (case http ext n url of
        Raised \<Rightarrow> FetchError
      | Response status body \<Rightarrow>
          (if 400 \<le> status \<and> status < 600 then FetchError
           else if page_contains_text (bs ext) body search_text selector then Hit
           else Miss))"

fun outcomes :: "('doc, 'el) externals \<Rightarrow> string \<Rightarrow> string \<Rightarrow> nat \<Rightarrow> string list \<Rightarrow> outcome list" where
  "outcomes ext search_text selector n [] = []"
| "outcomes ext search_text selector n (url # urls) =
     outcome_of ext search_text selector n url # outcomes ext search_text selector (Suc n) urls"

declare str_nat.simps [simp del]

fun display :: "string \<times> outcome \<Rightarrow> string" where
  "display (url, FetchError) = url @ '' [fetch error]''"
| "display (url, Hit) = url"
| "display (url, Miss) = url"

definition hit_urls :: "string list \<Rightarrow> outcome list \<Rightarrow> string list" where
  "hit_urls urls os = map fst (filter (\<lambda>p. snd p = Hit) (zip urls os))"

definition miss_lines :: "string list \<Rightarrow> outcome list \<Rightarrow> string list" where
  "miss_lines urls os = map display (filter (\<lambda>p. snd p \<noteq> Hit) (zip urls os))"

definition visits :: "string list \<Rightarrow> trace" where
  "visits urls = concat (map (\<lambda>u. [HttpGet u, Sleep]) urls)"

section \<open>Sample inputs\<close>

text \<open>
  A small world on which the theorems below are run. Its HTML library takes a page for
  its own text and knows one selector, \<open>body\<close>, which selects the whole page.
\<close>

definition demo_bs :: "(string, string) bs4" where
  "demo_bs =
     \<lparr>parse_html = (\<lambda>h. h),
      select_css = (\<lambda>d s. if s = ''body'' then [d] else []),
      element_text = (\<lambda>e. e),
      document_text = (\<lambda>d. d)\<rparr>"

definition demo_json_raw :: string where
  "demo_json_raw =
     ''['' @ [CHR 0x22] @ ''https://a.test'' @ [CHR 0x22] @ '', ''
       @ [CHR 0x22] @ '' https://b.test '' @ [CHR 0x22] @ '']''"

definition demo_ext :: "(string, string) externals" where
  "demo_ext =
     \<lparr>http = (\<lambda>n u. if u = ''https://a.test'' then Response 200 ''Sold Out Today''
                    else if u = ''https://b.test'' then Response 200 ''In stock''
                    else if u = ''https://gone.test'' then Response 404 ''SOLD OUT''
                    else Raised),
      bs = demo_bs,
      json_loads = (\<lambda>raw. if raw = demo_json_raw
                          then Some [JStr ''https://a.test'', JStr '' https://b.test '']
                          else None),
      smtp = (\<lambda>m. NoFault)\<rparr>"

definition demo_env :: environ where
  "demo_env =
     \<lparr>env_TARGET_URLS = Some '' https://a.test,https://b.test '',
      env_SEARCH_TEXT = None,
      env_RECIPIENT_EMAIL = None,
      env_SMTP_SERVER = Some ''smtp.test'',
      env_SMTP_PORT = None,
      env_SMTP_USER = Some ''monitor'',
      env_SMTP_PASS = Some ''secret'',
      env_CSS_SELECTOR = None\<rparr>"

definition demo_env_blank :: environ where
  "demo_env_blank = demo_env\<lparr>env_TARGET_URLS := Some [CHR '' '', CHR 0x09, CHR 0x0A]\<rparr>"

definition demo_env_down :: environ where
  "demo_env_down = demo_env\<lparr>env_TARGET_URLS := Some ''https://gone.test,https://x.test''\<rparr>"






section \<open>Properties of the string operations\<close>

lemma startswith_append: "startswith s p = (\<exists>r. s = p @ r)"
  by (induction s p rule: startswith.induct) auto

lemma str_in_Nil: "str_in [] hay"
  by (cases hay) simp_all

lemma str_in_iff: "str_in needle hay = (\<exists>before after. hay = before @ needle @ after)"
proof (induction hay)
  case Nil
  then show ?case by auto
next
  case (Cons c cs)
  show ?case
  proof
    assume "str_in needle (c # cs)"
    then consider "startswith (c # cs) needle" | "str_in needle cs" by auto
    then show "\<exists>before after. c # cs = before @ needle @ after"
    proof cases
      case 1
      then obtain r where "c # cs = needle @ r" by (auto simp: startswith_append)
      then have "c # cs = [] @ needle @ r" by simp
      then show ?thesis by blast
    next
      case 2
      with Cons obtain b a where "cs = b @ needle @ a" by auto
      then have "c # cs = (c # b) @ needle @ a" by simp
      then show ?thesis by blast
    qed
  next
    assume "\<exists>before after. c # cs = before @ needle @ after"
    then obtain b a where ba: "c # cs = b @ needle @ a" by auto
    show "str_in needle (c # cs)"
    proof (cases b)
      case Nil
      with ba have "startswith (c # cs) needle" by (auto simp: startswith_append)
      then show ?thesis by simp
    next
      case (Cons b0 bs)
      with ba have "cs = bs @ needle @ a" by simp
      with Cons.IH have "str_in needle cs" by auto
      then show ?thesis by simp
    qed
  qed
qed

lemma lower_append: "lower (a @ b) = lower a @ lower b"
  by (simp add: lower_def)

lemma lower_Nil_iff: "lower s = [] \<longleftrightarrow> s = []"
  by (simp add: lower_def)

lemma lower_SOLD_OUT: "lower ''SOLD OUT'' = lower ''Sold Out''"
  by code_simp

section \<open>The matcher: claims\<close>

text \<open>
  C10. Whatever the page and the selector (one that selects nothing included), the empty
  search text is found: the empty string occurs in every searched text, the empty one too.
\<close>

theorem empty_search_text_always_matches:
  "page_contains_text lib html [] css_selector"
  by (simp add: page_contains_text_def lower_def str_in_Nil)

theorem empty_search_text_always_matches_witness:
  "select_css demo_bs (parse_html demo_bs ''Back in stock'') ''div.price'' = []
   \<and> page_contains_text demo_bs ''Back in stock'' [] ''div.price''
   \<and> page_contains_text demo_bs ''Back in stock'' [] []"
  using empty_search_text_always_matches [of demo_bs "''Back in stock''" "''div.price''"]
    empty_search_text_always_matches [of demo_bs "''Back in stock''" "[]"]
  by (simp add: demo_bs_def)

text \<open>
  C6. The match is a case-insensitive substring test on the searchable text. With a
  selector, \<open>page_contains_text\<close> holds exactly when the lowercased search text occurs, as
  a contiguous run, in the lowercased texts of the selected elements joined by spaces;
  without one, exactly when it occurs in the lowercased text of the whole document. So
  the search text \<open>SOLD OUT\<close> is found as soon as \<open>Sold Out\<close> is somewhere in the
  searchable text, which without a selector is the visible text of the document.
\<close>

theorem match_is_case_insensitive_substring:
  "(css_selector \<noteq> [] \<longrightarrow>
      (page_contains_text lib html text css_selector \<longleftrightarrow>
         (\<exists>before after.
            lower (join '' '' (map (element_text lib)
                                 (select_css lib (parse_html lib html) css_selector)))
              = before @ lower text @ after)))
   \<and> (page_contains_text lib html text [] \<longleftrightarrow>
         (\<exists>before after.
            lower (document_text lib (parse_html lib html)) = before @ lower text @ after))
   \<and> (css_selector \<noteq> []
        \<and> (\<exists>before after.
              join '' '' (map (element_text lib)
                            (select_css lib (parse_html lib html) css_selector))
                = before @ ''Sold Out'' @ after)
        \<longrightarrow> page_contains_text lib html ''SOLD OUT'' css_selector)
   \<and> ((\<exists>before after.
          document_text lib (parse_html lib html) = before @ ''Sold Out'' @ after)
        \<longrightarrow> page_contains_text lib html ''SOLD OUT'' [])"
proof -
  let ?selected = "join '' '' (map (element_text lib)
                                 (select_css lib (parse_html lib html) css_selector))"
  let ?whole = "document_text lib (parse_html lib html)"
  have sel: "\<And>t. css_selector \<noteq> [] \<Longrightarrow>
      page_contains_text lib html t css_selector \<longleftrightarrow>
        (\<exists>before after. lower ?selected = before @ lower t @ after)"
    by (simp add: page_contains_text_def haystack_def str_in_iff)
  have doc: "\<And>t. page_contains_text lib html t [] \<longleftrightarrow>
        (\<exists>before after. lower ?whole = before @ lower t @ after)"
    by (simp add: page_contains_text_def haystack_def str_in_iff)
  have low: "\<And>h b a. h = b @ ''Sold Out'' @ a \<Longrightarrow>
      \<exists>before after. lower h = before @ lower ''SOLD OUT'' @ after"
  proof -
    fix h b a :: string
    assume "h = b @ ''Sold Out'' @ a"
    then have "lower h = lower b @ lower ''SOLD OUT'' @ lower a"
      by (simp only: lower_append lower_SOLD_OUT)
    then show "\<exists>before after. lower h = before @ lower ''SOLD OUT'' @ after" by blast
  qed
  have sold_sel: "css_selector \<noteq> [] \<and> (\<exists>before after. ?selected = before @ ''Sold Out'' @ after)
        \<longrightarrow> page_contains_text lib html ''SOLD OUT'' css_selector"
    using sel [of "''SOLD OUT''"] low [of ?selected] by blast
  have sold_doc: "(\<exists>before after. ?whole = before @ ''Sold Out'' @ after)
        \<longrightarrow> page_contains_text lib html ''SOLD OUT'' []"
    using doc [of "''SOLD OUT''"] low [of ?whole] by blast
  from sel [of "text"] doc [of "text"] sold_sel sold_doc show ?thesis by blast
qed

theorem match_is_case_insensitive_substring_witness:
  "document_text demo_bs (parse_html demo_bs ''Tickets: Sold Out today'')
     = ''Tickets: '' @ ''Sold Out'' @ '' today''
   \<and> page_contains_text demo_bs ''Tickets: Sold Out today'' ''SOLD OUT'' []
   \<and> join '' '' (map (element_text demo_bs)
                   (select_css demo_bs (parse_html demo_bs ''Tickets: Sold Out today'') ''body''))
     = ''Tickets: '' @ ''Sold Out'' @ '' today''
   \<and> page_contains_text demo_bs ''Tickets: Sold Out today'' ''SOLD OUT'' ''body''
   \<and> \<not> page_contains_text demo_bs ''Tickets: Sold Out today'' ''SOLD OUT'' ''div.price''"
proof -
  let ?page = "''Tickets: Sold Out today''"
  have d: "document_text demo_bs (parse_html demo_bs ?page) = ''Tickets: '' @ ''Sold Out'' @ '' today''"
    by (simp add: demo_bs_def)
  have s: "join '' '' (map (element_text demo_bs) (select_css demo_bs (parse_html demo_bs ?page) ''body''))
             = ''Tickets: '' @ ''Sold Out'' @ '' today''"
    by (simp add: demo_bs_def)
  have n: "join '' '' (map (element_text demo_bs) (select_css demo_bs (parse_html demo_bs ?page) ''div.price''))
             = []"
    by (simp add: demo_bs_def)
  from d have d': "\<exists>before after. document_text demo_bs (parse_html demo_bs ?page)
                = before @ ''Sold Out'' @ after"
    by blast
  from s have s': "\<exists>before after. join '' '' (map (element_text demo_bs)
                   (select_css demo_bs (parse_html demo_bs ?page) ''body''))
                = before @ ''Sold Out'' @ after"
    by blast
  have b: "''body'' \<noteq> []" and p: "''div.price'' \<noteq> []" by simp_all
  from match_is_case_insensitive_substring [of "''body''" demo_bs ?page] d' s' b
  have 1: "page_contains_text demo_bs ?page ''SOLD OUT'' []"
    and 2: "page_contains_text demo_bs ?page ''SOLD OUT'' ''body''"
    by blast+
  have "\<not> (\<exists>before after. lower [] = before @ lower ''SOLD OUT'' @ after)"
    by (simp add: lower_def)
  with match_is_case_insensitive_substring [of "''div.price''" demo_bs ?page "''SOLD OUT''"] p
  have 3: "\<not> page_contains_text demo_bs ?page ''SOLD OUT'' ''div.price''"
    unfolding n by blast
  from d 1 s 2 3 show ?thesis by (intro conjI)
qed

text \<open>
  C1, as stated, fails: with the empty search text, a page is a match although the
  selector selects nothing in it.
\<close>

theorem unmatched_selector_empty_text_counterexample:
  "''div.price'' \<noteq> [] \<and> select_css demo_bs (parse_html demo_bs ''SOLD OUT'') ''div.price'' = []
   \<and> page_contains_text demo_bs ''SOLD OUT'' [] ''div.price''"
  by (simp add: demo_bs_def page_contains_text_def haystack_def lower_def)

text \<open>
  C1, amended. For a non-empty selector that selects nothing and a non-empty search text,
  \<open>page_contains_text\<close> is false, whatever the text of the whole document: there is no
  fallback to it.
\<close>

theorem unmatched_selector_never_matches:
  assumes "css_selector \<noteq> []"
    and "select_css lib (parse_html lib html) css_selector = []"
    and "text \<noteq> []"
  shows "\<not> page_contains_text lib html text css_selector"
  using assms by (simp add: page_contains_text_def haystack_def lower_def)

theorem unmatched_selector_never_matches_witness:
  "''div.price'' \<noteq> [] \<and> select_css demo_bs (parse_html demo_bs ''SOLD OUT'') ''div.price'' = []
   \<and> ''SOLD OUT'' \<noteq> [] \<and> \<not> page_contains_text demo_bs ''SOLD OUT'' ''SOLD OUT'' ''div.price''
   \<and> page_contains_text demo_bs ''SOLD OUT'' ''SOLD OUT'' []"
proof -
  have s: "select_css demo_bs (parse_html demo_bs ''SOLD OUT'') ''div.price'' = []"
    by (simp add: demo_bs_def)
  have w: "page_contains_text demo_bs ''SOLD OUT'' ''SOLD OUT'' []"
    by (simp add: page_contains_text_def haystack_def demo_bs_def lower_def)
  from unmatched_selector_never_matches [OF _ s, of "''SOLD OUT''"] s w show ?thesis by simp
qed

section \<open>Properties of strip, split and join\<close>

lemma last_dropWhile: "dropWhile P xs \<noteq> [] \<Longrightarrow> last (dropWhile P xs) = last xs"
  by (induction xs) (auto split: if_splits)

lemma hd_dropWhile_rev:
  assumes "t \<noteq> []" and "\<not> P (hd t)"
  shows "dropWhile P (rev t) \<noteq> [] \<and> last (dropWhile P (rev t)) = hd t"
proof -
  have "hd t \<in> set (rev t)" using assms(1) by simp
  with assms(2) have ne: "dropWhile P (rev t) \<noteq> []"
    by (auto simp: dropWhile_eq_Nil_conv)
  then have "last (dropWhile P (rev t)) = last (rev t)" by (rule last_dropWhile)
  also have "\<dots> = hd t" using assms(1) by (simp add: last_rev)
  finally show ?thesis using ne by simp
qed

lemma dropWhile_id: "xs \<noteq> [] \<Longrightarrow> \<not> P (hd xs) \<Longrightarrow> dropWhile P xs = xs"
  by (cases xs) auto

lemma trimmed_strip: "trimmed (strip s)"
proof (cases "dropWhile is_space s = []")
  case True
  show ?thesis unfolding strip_def True by (simp add: trimmed_def)
next
  case False
  let ?t = "dropWhile is_space s"
  let ?u = "dropWhile is_space (rev ?t)"
  from False have h: "\<not> is_space (hd ?t)" by (rule hd_dropWhile)
  from hd_dropWhile_rev [of ?t is_space, OF False h] have ne: "?u \<noteq> []" and l: "last ?u = hd ?t" by simp_all
  from ne have hu: "\<not> is_space (hd ?u)" by (rule hd_dropWhile)
  have "strip s = rev ?u" by (simp add: strip_def)
  moreover have "rev ?u \<noteq> []" using ne by simp
  moreover have "hd (rev ?u) = last ?u" using ne by (simp add: hd_rev)
  moreover have "last (rev ?u) = hd ?u" using ne by (simp add: last_rev)
  ultimately show ?thesis using h hu l
    by (cases "rev ?u") (auto simp: trimmed_def)
qed

lemma strip_trimmed: "trimmed s \<Longrightarrow> strip s = s"
proof (cases s)
  case Nil
  then show ?thesis by (simp add: strip_def)
next
  case (Cons c cs)
  assume "trimmed s"
  with Cons have c: "\<not> is_space c" and l: "\<not> is_space (last s)" by (simp_all add: trimmed_def)
  from Cons c have d: "dropWhile is_space s = s" by simp
  have "rev s \<noteq> []" using Cons by simp
  moreover have "hd (rev s) = last s" using Cons by (simp add: hd_rev)
  ultimately have "dropWhile is_space (rev s) = rev s" using l by (simp add: dropWhile_id)
  with d show ?thesis by (simp add: strip_def)
qed

lemma strip_all_space: "\<forall>c\<in>set s. is_space c \<Longrightarrow> strip s = []"
proof -
  assume "\<forall>c\<in>set s. is_space c"
  then have d: "dropWhile is_space s = []" by simp
  show ?thesis unfolding strip_def d by simp
qed

lemma stripped_strs_entries: "stripped_strs (map JStr us) = entries us"
  by (induction us) (simp_all add: entries_def)

lemma stripped_strs_trimmed: "u \<in> set (stripped_strs arr) \<Longrightarrow> u \<noteq> [] \<and> trimmed u"
  by (induction arr rule: stripped_strs.induct) (auto simp: trimmed_strip split: if_splits)

lemma split_not_Nil: "split s sep \<noteq> []"
  by (induction s) (auto split: list.splits)

lemma split_no_sep: "sep \<notin> set s \<Longrightarrow> split s sep = [s]"
  by (induction s) auto

lemma split_append_sep: "sep \<notin> set a \<Longrightarrow> split (a @ sep # rest) sep = a # split rest sep"
  by (induction a) (auto split: list.splits simp: split_not_Nil)

lemma split_join:
  "items \<noteq> [] \<Longrightarrow> \<forall>i\<in>set items. sep \<notin> set i \<Longrightarrow> split (join [sep] items) sep = items"
proof (induction "[sep]" items rule: join.induct)
  case 1
  then show ?case by simp
next
  case (2 x)
  then show ?case by (simp add: split_no_sep)
next
  case (3 x y ys)
  then show ?case by (simp add: split_append_sep)
qed

lemma sep_in_join: "2 \<le> length items \<Longrightarrow> sep \<in> set (join [sep] items)"
  by (induction "[sep]" items rule: join.induct) auto

lemma set_join: "set (join [sep] items) \<subseteq> insert sep (\<Union>(set ` set items))"
  by (induction "[sep]" items rule: join.induct) auto

lemma split_parts_trimmed: "u \<in> set (split_parts seps raw) \<Longrightarrow> u \<noteq> [] \<and> trimmed u"
  by (induction seps raw rule: split_parts.induct) (auto simp: trimmed_strip split: if_splits)

section \<open>URL list parsing: claims\<close>

lemma parse_urls_json:
  assumes "startswith raw ''[''" and "json_loads ext raw = Some (map JStr us)"
  shows "parse_urls ext raw = entries us"
proof -
  from assms(1) have "raw \<noteq> []" by (cases raw) auto
  with assms show ?thesis by (simp add: parse_urls_def stripped_strs_entries)
qed

lemma parse_urls_text:
  assumes "raw \<noteq> []" and "startswith raw ''['' \<longrightarrow> json_loads ext raw = None"
  shows "parse_urls ext raw =
           (let parts = split_parts [CHR 0x0A, CHR '',''] raw in if parts \<noteq> [] then parts else [raw])"
  using assms by (auto simp: parse_urls_def)

lemma parse_urls_newlines:
  assumes "2 \<le> length items" and "\<forall>i\<in>set items. CHR 0x0A \<notin> set i"
    and "startswith (join [CHR 0x0A] items) ''['' \<longrightarrow> json_loads ext (join [CHR 0x0A] items) = None"
    and "entries items \<noteq> []"
  shows "parse_urls ext (join [CHR 0x0A] items) = entries items"
proof -
  let ?raw = "join [CHR 0x0A] items"
  from assms(1) have ne: "items \<noteq> []" by auto
  from assms(1) have inraw: "CHR 0x0A \<in> set ?raw" by (rule sep_in_join)
  then have "?raw \<noteq> []" by auto
  moreover have "split ?raw (CHR 0x0A) = items" using ne assms(2) by (rule split_join)
  ultimately show ?thesis
    using assms(3,4) inraw by (simp add: parse_urls_text entries_def)
qed

lemma parse_urls_commas:
  assumes "2 \<le> length items" and "\<forall>i\<in>set items. CHR '','' \<notin> set i \<and> CHR 0x0A \<notin> set i"
    and "startswith (join '','' items) ''['' \<longrightarrow> json_loads ext (join '','' items) = None"
    and "entries items \<noteq> []"
  shows "parse_urls ext (join '','' items) = entries items"
proof -
  let ?raw = "join [CHR '',''] items"
  from assms(1) have ne: "items \<noteq> []" by auto
  from assms(1) have inraw: "CHR '','' \<in> set ?raw" by (rule sep_in_join)
  then have "?raw \<noteq> []" by auto
  have "set ?raw \<subseteq> insert (CHR '','') (\<Union>(set ` set items))" by (rule set_join)
  with assms(2) have nolf: "CHR 0x0A \<notin> set ?raw" by auto
  have "split ?raw (CHR '','') = items" using ne assms(2) by (simp add: split_join)
  with \<open>?raw \<noteq> []\<close> show ?thesis
    using assms(3,4) inraw nolf by (simp add: parse_urls_text entries_def)
qed

lemma parse_urls_single:
  assumes "url \<noteq> []" and "trimmed url" and "CHR 0x0A \<notin> set url" and "CHR '','' \<notin> set url"
    and "startswith url ''['' \<longrightarrow> json_loads ext url = None"
  shows "parse_urls ext url = entries [url]"
  using assms by (simp add: parse_urls_text entries_def strip_trimmed)

lemma parse_urls_trimmed:
  assumes "trimmed raw" and "u \<in> set (parse_urls ext raw)"
  shows "u \<noteq> [] \<and> trimmed u"
  using assms
  by (auto simp: parse_urls_def Let_def stripped_strs_trimmed trimmed_strip
      dest: split_parts_trimmed split: if_splits option.splits)

text \<open>
  C2, as stated, fails in three ways. A comma-separated list whose entries are all blank
  comes back as the raw text, as one URL; a newline anywhere in a comma-separated list
  makes the newline the separator, the commas staying in the entries; and a single URL
  with whitespace around it, handed to \<open>parse_urls\<close> as it is, comes back untrimmed.
\<close>

theorem parse_urls_returns_entries_counterexample:
  "parse_urls demo_ext '','' = ['','']
   \<and> entries (split '','' (CHR '','')) = []
   \<and> parse_urls demo_ext (''a.test,'' @ [CHR 0x0A] @ ''b.test'') = [''a.test,'', ''b.test'']
   \<and> entries (split (''a.test,'' @ [CHR 0x0A] @ ''b.test'') (CHR '','')) = [''a.test'', ''b.test'']
   \<and> parse_urls demo_ext '' a.test '' = ['' a.test '']
   \<and> entries (split '' a.test '' (CHR '','')) = [''a.test'']"
  by (simp add: parse_urls_def entries_def strip_def is_space_def demo_ext_def)

text \<open>
  C2, amended. \<open>parse_urls\<close> returns the trimmed, non-empty entries, in their order,
  \<^item> of the array, when the text starts with \<open>[\<close> and \<open>json.loads\<close> makes of it an array of
    strings;
  \<^item> of a list of two or more items joined by newlines, no item holding a newline;
  \<^item> of a list of two or more items joined by commas, no item holding a comma or a
    newline;
  \<^item> of a single URL that is trimmed and holds no comma and no newline;
  where in the last three cases the text does not start with \<open>[\<close> or \<open>json.loads\<close> raises
  on it, and in the two list cases some item is not blank.
\<close>

theorem parse_urls_returns_entries:
  "(startswith raw ''['' \<and> json_loads ext raw = Some (map JStr us)
      \<longrightarrow> parse_urls ext raw = entries us)
   \<and> (2 \<le> length items \<and> (\<forall>i\<in>set items. CHR 0x0A \<notin> set i)
       \<and> (startswith (join [CHR 0x0A] items) ''['' \<longrightarrow> json_loads ext (join [CHR 0x0A] items) = None)
       \<and> entries items \<noteq> []
      \<longrightarrow> parse_urls ext (join [CHR 0x0A] items) = entries items)
   \<and> (2 \<le> length items \<and> (\<forall>i\<in>set items. CHR '','' \<notin> set i \<and> CHR 0x0A \<notin> set i)
       \<and> (startswith (join '','' items) ''['' \<longrightarrow> json_loads ext (join '','' items) = None)
       \<and> entries items \<noteq> []
      \<longrightarrow> parse_urls ext (join '','' items) = entries items)
   \<and> (url \<noteq> [] \<and> trimmed url \<and> CHR 0x0A \<notin> set url \<and> CHR '','' \<notin> set url
       \<and> (startswith url ''['' \<longrightarrow> json_loads ext url = None)
      \<longrightarrow> parse_urls ext url = entries [url] \<and> entries [url] = [url])"
  using parse_urls_json [of raw ext us] parse_urls_newlines [of items ext]
    parse_urls_commas [of items ext] parse_urls_single [of url ext]
  by (auto simp: entries_def strip_trimmed)

theorem parse_urls_returns_entries_witness:
  "parse_urls demo_ext demo_json_raw = [''https://a.test'', ''https://b.test'']
   \<and> parse_urls demo_ext (join [CHR 0x0A] [''https://a.test'', '' https://b.test ''])
       = [''https://a.test'', ''https://b.test'']
   \<and> parse_urls demo_ext (join '','' [''https://a.test'', '' https://b.test ''])
       = [''https://a.test'', ''https://b.test'']
   \<and> parse_urls demo_ext ''https://a.test'' = [''https://a.test'']"
proof -
  let ?items = "[''https://a.test'', '' https://b.test '']"
  let ?url = "''https://a.test''"
  have e: "entries ?items = [''https://a.test'', ''https://b.test'']"
    by (simp add: entries_def strip_def is_space_def)
  have a: "startswith demo_json_raw ''['' \<and> json_loads demo_ext demo_json_raw = Some (map JStr ?items)"
    by (simp add: demo_ext_def demo_json_raw_def)
  have b: "2 \<le> length ?items \<and> (\<forall>i\<in>set ?items. CHR 0x0A \<notin> set i)
       \<and> (startswith (join [CHR 0x0A] ?items) ''['' \<longrightarrow> json_loads demo_ext (join [CHR 0x0A] ?items) = None)
       \<and> entries ?items \<noteq> []"
    unfolding e by simp
  have c: "2 \<le> length ?items \<and> (\<forall>i\<in>set ?items. CHR '','' \<notin> set i \<and> CHR 0x0A \<notin> set i)
       \<and> (startswith (join '','' ?items) ''['' \<longrightarrow> json_loads demo_ext (join '','' ?items) = None)
       \<and> entries ?items \<noteq> []"
    unfolding e by simp
  have d: "?url \<noteq> [] \<and> trimmed ?url \<and> CHR 0x0A \<notin> set ?url \<and> CHR '','' \<notin> set ?url
       \<and> (startswith ?url ''['' \<longrightarrow> json_loads demo_ext ?url = None)"
    by (simp add: trimmed_def is_space_def)
  note T = parse_urls_returns_entries [where raw = demo_json_raw and ext = demo_ext
      and us = ?items and items = ?items and url = ?url]
  from T a have 1: "parse_urls demo_ext demo_json_raw = entries ?items" by blast
  from T b have 2: "parse_urls demo_ext (join [CHR 0x0A] ?items) = entries ?items" by blast
  from T c have 3: "parse_urls demo_ext (join '','' ?items) = entries ?items" by blast
  from T d have "parse_urls demo_ext ?url = entries [?url] \<and> entries [?url] = [?url]" by blast
  then have 4: "parse_urls demo_ext ?url = [?url]" by (elim conjE) (simp only:)
  from 1 2 3 4
  have "parse_urls demo_ext demo_json_raw = entries ?items
     \<and> parse_urls demo_ext (join [CHR 0x0A] ?items) = entries ?items
     \<and> parse_urls demo_ext (join '','' ?items) = entries ?items
     \<and> parse_urls demo_ext ?url = [?url]"
    by (intro conjI)
  then show ?thesis unfolding e by simp
qed

text \<open>
  C3, as stated, fails: a text with whitespace around it and no separator in it comes
  back as it is.
\<close>

theorem parse_urls_entries_trimmed_counterexample:
  "parse_urls demo_ext '' https://a.test '' = ['' https://a.test '']
   \<and> \<not> trimmed '' https://a.test ''"
  by (simp add: parse_urls_def trimmed_def is_space_def demo_ext_def)

text \<open>
  C3, amended. For every trimmed input text, every entry of the list \<open>parse_urls\<close> returns
  is trimmed and not empty. The text \<open>main\<close> hands to \<open>parse_urls\<close> is the stripped value
  of \<open>TARGET_URLS\<close>, so this holds for every run.
\<close>

theorem parse_urls_entries_trimmed:
  "(trimmed raw \<longrightarrow> (\<forall>u\<in>set (parse_urls ext raw). u \<noteq> [] \<and> trimmed u))
   \<and> (\<forall>u\<in>set (parse_urls ext (TARGET_URLS_RAW env)). u \<noteq> [] \<and> trimmed u)"
  using parse_urls_trimmed [of raw] parse_urls_trimmed [of "TARGET_URLS_RAW env"]
  by (auto simp: TARGET_URLS_RAW_def trimmed_strip)

theorem parse_urls_entries_trimmed_witness:
  "trimmed ''https://a.test, ,https://b.test''
   \<and> parse_urls demo_ext ''https://a.test, ,https://b.test'' = [''https://a.test'', ''https://b.test'']
   \<and> list_all (\<lambda>u. u \<noteq> [] \<and> trimmed u) (parse_urls demo_ext ''https://a.test, ,https://b.test'')"
proof -
  have t: "trimmed ''https://a.test, ,https://b.test''"
    by (simp add: trimmed_def is_space_def)
  have p: "parse_urls demo_ext ''https://a.test, ,https://b.test'' = [''https://a.test'', ''https://b.test'']"
    by (simp add: parse_urls_def strip_def is_space_def demo_ext_def)
  from parse_urls_entries_trimmed [of "''https://a.test, ,https://b.test''" demo_ext] t
  have "\<forall>u\<in>set (parse_urls demo_ext ''https://a.test, ,https://b.test''). u \<noteq> [] \<and> trimmed u"
    by blast
  then have "list_all (\<lambda>u. u \<noteq> [] \<and> trimmed u) (parse_urls demo_ext ''https://a.test, ,https://b.test'')"
    by (simp only: list_all_iff)
  with t p show ?thesis by (intro conjI)
qed

text \<open>
  C9. When \<open>TARGET_URLS\<close> is not set, empty or all whitespace, the parsed list is empty
  and \<open>main\<close> returns with the world as it found it: no request is made and no mail
  is sent.
\<close>

theorem no_urls_no_activity:
  assumes "\<forall>c\<in>set (getenv (env_TARGET_URLS env) []). is_space c"
  shows "parse_urls ext (TARGET_URLS_RAW env) = [] \<and> main env ext tr = tr
         \<and> filter is_http (main env ext []) = [] \<and> filter is_smtp (main env ext []) = []"
proof -
  from assms have "TARGET_URLS_RAW env = []"
    unfolding TARGET_URLS_RAW_def by (rule strip_all_space)
  then have p: "parse_urls ext (TARGET_URLS_RAW env) = []" by (simp add: parse_urls_def)
  then have "\<And>t. main env ext t = t" by (simp add: main_def)
  with p show ?thesis by simp
qed

theorem no_urls_no_activity_witness:
  "list_all is_space (getenv (env_TARGET_URLS demo_env_blank) [])
   \<and> parse_urls demo_ext (TARGET_URLS_RAW demo_env_blank) = []
   \<and> main demo_env_blank demo_ext [] = []"
proof -
  have h: "\<forall>c\<in>set (getenv (env_TARGET_URLS demo_env_blank) []). is_space c"
    by (simp add: demo_env_blank_def getenv_def is_space_def)
  then have "list_all is_space (getenv (env_TARGET_URLS demo_env_blank) [])"
    by (simp only: list_all_iff)
  with no_urls_no_activity [OF h, of demo_ext "[]"] show ?thesis by blast
qed

section \<open>The pass over the URLs: claims\<close>

lemma length_outcomes: "length (outcomes ext t s n urls) = length urls"
  by (induction urls arbitrary: n) simp_all

lemma requests_made_step: "requests_made (tr @ [HttpGet url] @ [Sleep]) = Suc (requests_made tr)"
  by (simp add: requests_made_def)

lemma check_loop_step:
  "check_loop ext t s (url # urls) (hits, misses, tr) =
     check_loop ext t s urls
       (hits @ hit_urls [url] [outcome_of ext t s (requests_made tr) url],
        misses @ miss_lines [url] [outcome_of ext t s (requests_made tr) url],
        tr @ [HttpGet url] @ [Sleep])"
  by (auto simp: fetch_html_def outcome_of_def hit_urls_def miss_lines_def
      split: http_result.splits)

lemma check_loop_eq:
  "check_loop ext t s urls (hits, misses, tr) =
     (hits @ hit_urls urls (outcomes ext t s (requests_made tr) urls),
      misses @ miss_lines urls (outcomes ext t s (requests_made tr) urls),
      tr @ visits urls)"
proof (induction urls arbitrary: hits misses tr)
  case Nil
  then show ?case by (simp add: hit_urls_def miss_lines_def visits_def)
next
  case (Cons url urls)
  let ?o = "outcome_of ext t s (requests_made tr) url"
  let ?tr = "tr @ [HttpGet url] @ [Sleep]"
  have "check_loop ext t s (url # urls) (hits, misses, tr) =
          check_loop ext t s urls (hits @ hit_urls [url] [?o], misses @ miss_lines [url] [?o], ?tr)"
    by (rule check_loop_step)
  also have "\<dots> =
     ((hits @ hit_urls [url] [?o]) @ hit_urls urls (outcomes ext t s (requests_made ?tr) urls),
      (misses @ miss_lines [url] [?o]) @ miss_lines urls (outcomes ext t s (requests_made ?tr) urls),
      ?tr @ visits urls)"
    by (rule Cons.IH)
  also have "\<dots> =
     (hits @ hit_urls (url # urls) (outcomes ext t s (requests_made tr) (url # urls)),
      misses @ miss_lines (url # urls) (outcomes ext t s (requests_made tr) (url # urls)),
      tr @ visits (url # urls))"
    by (simp add: requests_made_def hit_urls_def miss_lines_def visits_def)
  finally show ?case .
qed

lemma length_hits_misses:
  "length os = length urls \<Longrightarrow> length (hit_urls urls os) + length (miss_lines urls os) = length urls"
proof -
  assume l: "length os = length urls"
  have "length (filter (\<lambda>p. snd p = Hit) (zip urls os)) + length (filter (\<lambda>p. \<not> snd p = Hit) (zip urls os))
        = length (zip urls os)"
    by (rule sum_length_filter_compl)
  with l show ?thesis by (simp add: hit_urls_def miss_lines_def)
qed

lemma fetch_error_listed:
  assumes "length os = length urls" and "i < length urls" and "os ! i = FetchError"
  shows "urls ! i @ '' [fetch error]'' \<in> set (miss_lines urls os)"
proof -
  from assms(1,2) have "(urls ! i, os ! i) \<in> set (zip urls os)"
    by (auto simp: set_zip)
  with assms(3) have "(urls ! i, FetchError) \<in> set (filter (\<lambda>p. snd p \<noteq> Hit) (zip urls os))"
    by simp
  then have "display (urls ! i, FetchError) \<in> set (miss_lines urls os)"
    unfolding miss_lines_def by (simp only: set_map) (rule imageI)
  then show ?thesis by simp
qed

lemma hit_urls_subset: "set (hit_urls urls os) \<subseteq> set urls"
  by (auto simp: hit_urls_def dest: set_zip_leftD)

text \<open>
  C4. \<open>check_urls\<close> makes one request and one pause for each URL, in order. Every URL
  lands in exactly one of the two lists: the hits are the URLs whose outcome is a hit,
  the misses are the other URLs, each list in the order of the input, so the two lengths
  add up to the number of URLs. A URL that could not be fetched is in the misses with
  \<open>[fetch error]\<close> appended, which tells it from the plain URL.
\<close>

theorem check_urls_one_entry_per_url:
  "check_urls ext urls search_text selector tr =
     (hit_urls urls (outcomes ext search_text selector (requests_made tr) urls),
      miss_lines urls (outcomes ext search_text selector (requests_made tr) urls),
      tr @ visits urls)
   \<and> length (fst (check_urls ext urls search_text selector tr))
       + length (fst (snd (check_urls ext urls search_text selector tr))) = length urls
   \<and> (\<forall>i<length urls.
        outcomes ext search_text selector (requests_made tr) urls ! i = FetchError \<longrightarrow>
        urls ! i @ '' [fetch error]'' \<in> set (fst (snd (check_urls ext urls search_text selector tr)))
        \<and> urls ! i @ '' [fetch error]'' \<noteq> urls ! i)"
proof -
  let ?os = "outcomes ext search_text selector (requests_made tr) urls"
  have eq: "check_urls ext urls search_text selector tr =
     (hit_urls urls ?os, miss_lines urls ?os, tr @ visits urls)"
    by (simp add: check_urls_def check_loop_eq)
  have l: "length ?os = length urls" by (rule length_outcomes)
  show ?thesis
    unfolding eq using length_hits_misses [OF l] fetch_error_listed [OF l]
    by simp
qed

theorem check_urls_one_entry_per_url_witness:
  "check_urls demo_ext [''https://a.test'', ''https://gone.test'', ''https://b.test'', ''https://x.test'']
      ''SOLD OUT'' [] []
   = ([''https://a.test''],
      [''https://gone.test [fetch error]'', ''https://b.test'', ''https://x.test [fetch error]''],
      [HttpGet ''https://a.test'', Sleep, HttpGet ''https://gone.test'', Sleep,
       HttpGet ''https://b.test'', Sleep, HttpGet ''https://x.test'', Sleep])"
proof -
  let ?urls = "[''https://a.test'', ''https://gone.test'', ''https://b.test'', ''https://x.test'']"
  have os: "outcomes demo_ext ''SOLD OUT'' [] (requests_made []) ?urls = [Hit, FetchError, Miss, FetchError]"
    by code_simp
  from check_urls_one_entry_per_url [of demo_ext ?urls "''SOLD OUT''" "[]" "[]"]
  have "check_urls demo_ext ?urls ''SOLD OUT'' [] [] =
     (hit_urls ?urls (outcomes demo_ext ''SOLD OUT'' [] (requests_made []) ?urls),
      miss_lines ?urls (outcomes demo_ext ''SOLD OUT'' [] (requests_made []) ?urls),
      [] @ visits ?urls)"
    by (rule conjunct1)
  then show ?thesis
    unfolding os by (simp add: hit_urls_def miss_lines_def visits_def)
qed

section \<open>The run: claims\<close>

lemma visits_no_smtp: "filter is_smtp (visits urls) = []"
  by (induction urls) (simp_all add: visits_def)

lemma is_send_smtp: "is_send e \<Longrightarrow> is_smtp e"
  by (cases e) simp_all


lemma send_email_events:
  "\<exists>evs. snd (send_email env ext subj body tr) = tr @ evs \<and> length (filter is_send evs) \<le> 1"
  by (auto simp: send_email_def Let_def split: option.splits smtp_fault.splits)

lemma main_eq:
  "main env ext tr =
     (let urls = parse_urls ext (TARGET_URLS_RAW env);
          os = outcomes ext (SEARCH_TEXT env) (CSS_SELECTOR env) (requests_made tr) urls;
          hits = hit_urls urls os;
          misses = miss_lines urls os
      in if urls = [] then tr
         else if hits \<noteq> []
         then snd (send_email env ext (subject env hits urls)
                     (join [CHR 0x0A] (body_lines env hits misses)) (tr @ visits urls))
         else tr @ visits urls)"
  by (simp add: main_def Let_def check_urls_def check_loop_eq)

lemma all_fetch_errors_no_hits:
  "\<forall>n. \<forall>u\<in>set urls. outcome_of ext t s n u = FetchError \<Longrightarrow>
   hit_urls urls (outcomes ext t s n urls) = []"
  by (induction urls arbitrary: n) (simp_all add: hit_urls_def)

lemma str_nat_1: "str_nat (Suc 0) = ''1''"
  by code_simp

text \<open>
  C5. A run calls \<open>send_message\<close> at most once; it touches SMTP at all only when the hit
  list is not empty; and when every configured URL fails to fetch, at whatever moment it
  is requested, the hit list is empty and the run does nothing with SMTP.
\<close>

theorem at_most_one_email_only_on_hits:
  "length (filter is_send (main env ext [])) \<le> 1
   \<and> (filter is_smtp (main env ext []) \<noteq> [] \<longrightarrow>
        fst (check_urls ext (parse_urls ext (TARGET_URLS_RAW env))
               (SEARCH_TEXT env) (CSS_SELECTOR env) []) \<noteq> [])
   \<and> ((\<forall>n. \<forall>u\<in>set (parse_urls ext (TARGET_URLS_RAW env)).
          outcome_of ext (SEARCH_TEXT env) (CSS_SELECTOR env) n u = FetchError) \<longrightarrow>
        fst (check_urls ext (parse_urls ext (TARGET_URLS_RAW env))
               (SEARCH_TEXT env) (CSS_SELECTOR env) []) = []
        \<and> filter is_smtp (main env ext []) = [])"
proof -
  let ?urls = "parse_urls ext (TARGET_URLS_RAW env)"
  let ?os = "outcomes ext (SEARCH_TEXT env) (CSS_SELECTOR env) (requests_made []) ?urls"
  let ?hits = "hit_urls ?urls ?os"
  let ?misses = "miss_lines ?urls ?os"
  have hits: "fst (check_urls ext ?urls (SEARCH_TEXT env) (CSS_SELECTOR env) []) = ?hits"
    by (simp add: check_urls_def check_loop_eq)
  have quiet: "?urls = [] \<or> ?hits = [] \<Longrightarrow> main env ext [] = visits ?urls"
    by (auto simp: main_eq [of env ext "[]"] Let_def visits_def)
  have sends: "length (filter is_send (main env ext [])) \<le> 1"
  proof (cases "?urls = [] \<or> ?hits = []")
    case True
    have "filter is_send (visits ?urls) = []"
      using visits_no_smtp [of ?urls] by (auto simp: filter_empty_conv dest: is_send_smtp)
    with quiet [OF True] show ?thesis by simp
  next
    case False
    then have m: "main env ext [] =
        snd (send_email env ext (subject env ?hits ?urls)
               (join [CHR 0x0A] (body_lines env ?hits ?misses)) ([] @ visits ?urls))"
      by (simp add: main_eq [of env ext "[]"] Let_def)
    obtain evs where e: "snd (send_email env ext (subject env ?hits ?urls)
               (join [CHR 0x0A] (body_lines env ?hits ?misses)) ([] @ visits ?urls)) = ([] @ visits ?urls) @ evs"
      and l: "length (filter is_send evs) \<le> 1"
      using send_email_events by blast
    have "filter is_send (visits ?urls) = []"
      using visits_no_smtp [of ?urls] by (auto simp: filter_empty_conv dest: is_send_smtp)
    with m e l show ?thesis by simp
  qed
  have only: "filter is_smtp (main env ext []) \<noteq> [] \<longrightarrow> ?hits \<noteq> []"
    using quiet visits_no_smtp [of ?urls] by auto
  have fail: "(\<forall>n. \<forall>u\<in>set ?urls. outcome_of ext (SEARCH_TEXT env) (CSS_SELECTOR env) n u = FetchError)
      \<longrightarrow> ?hits = [] \<and> filter is_smtp (main env ext []) = []"
  proof
    assume "\<forall>n. \<forall>u\<in>set ?urls. outcome_of ext (SEARCH_TEXT env) (CSS_SELECTOR env) n u = FetchError"
    then have h: "?hits = []" by (rule all_fetch_errors_no_hits)
    with quiet visits_no_smtp [of ?urls] show "?hits = [] \<and> filter is_smtp (main env ext []) = []"
      by simp
  qed
  show ?thesis unfolding hits using sends only fail by blast
qed

theorem at_most_one_email_only_on_hits_witness:
  "parse_urls demo_ext (TARGET_URLS_RAW demo_env_down) = [''https://gone.test'', ''https://x.test'']
   \<and> outcomes demo_ext (SEARCH_TEXT demo_env_down) (CSS_SELECTOR demo_env_down) 0
         [''https://gone.test'', ''https://x.test''] = [FetchError, FetchError]
   \<and> fst (check_urls demo_ext (parse_urls demo_ext (TARGET_URLS_RAW demo_env_down))
            (SEARCH_TEXT demo_env_down) (CSS_SELECTOR demo_env_down) []) = []
   \<and> filter is_smtp (main demo_env_down demo_ext []) = []
   \<and> length (filter is_send (main demo_env_down demo_ext [])) \<le> 1"
proof -
  have p: "parse_urls demo_ext (TARGET_URLS_RAW demo_env_down) = [''https://gone.test'', ''https://x.test'']"
    by code_simp
  have h: "\<forall>n. \<forall>u\<in>set (parse_urls demo_ext (TARGET_URLS_RAW demo_env_down)).
       outcome_of demo_ext (SEARCH_TEXT demo_env_down) (CSS_SELECTOR demo_env_down) n u = FetchError"
    unfolding p by (simp add: outcome_of_def demo_ext_def)
  have os: "outcomes demo_ext (SEARCH_TEXT demo_env_down) (CSS_SELECTOR demo_env_down) 0
         [''https://gone.test'', ''https://x.test''] = [FetchError, FetchError]"
    by (simp add: outcome_of_def demo_ext_def)
  from at_most_one_email_only_on_hits [of demo_env_down demo_ext] h
  have "fst (check_urls demo_ext (parse_urls demo_ext (TARGET_URLS_RAW demo_env_down))
            (SEARCH_TEXT demo_env_down) (CSS_SELECTOR demo_env_down) []) = []
   \<and> filter is_smtp (main demo_env_down demo_ext []) = []
   \<and> length (filter is_send (main demo_env_down demo_ext [])) \<le> 1"
    by blast
  with p os show ?thesis by (intro conjI) blast+
qed






text \<open>
  C8. When exactly one URL \<open>u\<close> of the \<open>N\<close> configured ones is a hit, \<open>main\<close> hands to
  \<open>send_email\<close> a subject that quotes the search text and reports \<open>1/N\<close>, and a body of
  these lines: the search text, the selector (or \<open>N/A\<close> when there is none),
  \<open>Found on:\<close> with \<open>u\<close> under it, and \<open>Not found on:\<close> with the other \<open>N - 1\<close> URLs
  under it, those that could not be fetched tagged as in C4, or \<open>(none)\<close> when there is no
  other URL. With complete SMTP parameters and a session that goes through, that message
  is the one sent.
\<close>

theorem single_hit_alert:
  assumes "urls = parse_urls ext (TARGET_URLS_RAW env)"
    and "check_urls ext urls (SEARCH_TEXT env) (CSS_SELECTOR env) tr = ([u], misses, tr1)"
  shows "main env ext tr =
           snd (send_email env ext (subject env [u] urls)
                  (join [CHR 0x0A] (body_lines env [u] misses)) tr1)
     \<and> subject env [u] urls =
           ''[ALERT] Found '' @ [CHR 0x27] @ SEARCH_TEXT env @ [CHR 0x27]
             @ '' on 1/'' @ str_nat (length urls) @ '' URL(s)''
     \<and> body_lines env [u] misses =
           [''Search text: '' @ [CHR 0x27] @ SEARCH_TEXT env @ [CHR 0x27],
            ''CSS selector: '' @ [CHR 0x27]
              @ (if CSS_SELECTOR env = [] then ''N/A'' else CSS_SELECTOR env) @ [CHR 0x27],
            [],
            ''Found on:'',
            ''- '' @ u,
            [],
            ''Not found on:'']
           @ (if misses = [] then [''- (none)''] else map (\<lambda>m. ''- '' @ m) misses)
           @ [ [], ''Checked by monitor.py'']
     \<and> u \<in> set urls
     \<and> length misses = length urls - 1
     \<and> misses = miss_lines urls
                  (outcomes ext (SEARCH_TEXT env) (CSS_SELECTOR env) (requests_made tr) urls)
     \<and> (SMTP_SERVER env = Some server \<and> server \<noteq> [] \<and> SMTP_PORT env \<noteq> 0
         \<and> SMTP_USER env = Some user \<and> user \<noteq> [] \<and> SMTP_PASS env = Some pass \<and> pass \<noteq> []
         \<and> smtp ext \<lparr>msg_From = user, msg_To = RECIPIENT env,
                       msg_Subject = subject env [u] urls,
                       msg_content = join [CHR 0x0A] (body_lines env [u] misses)\<rparr> = NoFault
        \<longrightarrow> main env ext tr =
              tr1 @ [SmtpConnect server (SMTP_PORT env), SmtpStartTls, SmtpLogin user pass,
                     SmtpSendMessage \<lparr>msg_From = user, msg_To = RECIPIENT env,
                       msg_Subject = subject env [u] urls,
                       msg_content = join [CHR 0x0A] (body_lines env [u] misses)\<rparr>,
                     SmtpQuit])"
proof -
  let ?os = "outcomes ext (SEARCH_TEXT env) (CSS_SELECTOR env) (requests_made tr) urls"
  from assms(2) have h: "hit_urls urls ?os = [u]" and m: "misses = miss_lines urls ?os"
    and t: "tr1 = tr @ visits urls"
    by (simp_all add: check_urls_def check_loop_eq)
  from h hit_urls_subset [of urls ?os] have u: "u \<in> set urls" by auto
  then have ne: "urls \<noteq> []" by auto
  have "length (hit_urls urls ?os) + length (miss_lines urls ?os) = length urls"
    by (rule length_hits_misses) (rule length_outcomes)
  with h m have len: "length misses = length urls - 1" by simp
  have main: "main env ext tr =
           snd (send_email env ext (subject env [u] urls)
                  (join [CHR 0x0A] (body_lines env [u] misses)) tr1)"
    using ne h m t assms(1) by (simp add: main_eq Let_def)
  have subj: "subject env [u] urls =
           ''[ALERT] Found '' @ [CHR 0x27] @ SEARCH_TEXT env @ [CHR 0x27]
             @ '' on 1/'' @ str_nat (length urls) @ '' URL(s)''"
    by (simp add: subject_def str_nat_1)
  have body: "body_lines env [u] misses =
           [''Search text: '' @ [CHR 0x27] @ SEARCH_TEXT env @ [CHR 0x27],
            ''CSS selector: '' @ [CHR 0x27]
              @ (if CSS_SELECTOR env = [] then ''N/A'' else CSS_SELECTOR env) @ [CHR 0x27],
            [],
            ''Found on:'',
            ''- '' @ u,
            [],
            ''Not found on:'']
           @ (if misses = [] then [''- (none)''] else map (\<lambda>m. ''- '' @ m) misses)
           @ [ [], ''Checked by monitor.py'']"
    by (simp add: body_lines_def not_found_lines_def)
  have sent: "SMTP_SERVER env = Some server \<and> server \<noteq> [] \<and> SMTP_PORT env \<noteq> 0
         \<and> SMTP_USER env = Some user \<and> user \<noteq> [] \<and> SMTP_PASS env = Some pass \<and> pass \<noteq> []
         \<and> smtp ext \<lparr>msg_From = user, msg_To = RECIPIENT env,
                       msg_Subject = subject env [u] urls,
                       msg_content = join [CHR 0x0A] (body_lines env [u] misses)\<rparr> = NoFault
        \<longrightarrow> main env ext tr =
              tr1 @ [SmtpConnect server (SMTP_PORT env), SmtpStartTls, SmtpLogin user pass,
                     SmtpSendMessage \<lparr>msg_From = user, msg_To = RECIPIENT env,
                       msg_Subject = subject env [u] urls,
                       msg_content = join [CHR 0x0A] (body_lines env [u] misses)\<rparr>,
                     SmtpQuit]"
    unfolding main by (simp add: send_email_def truthy_def Let_def)
  from main subj body u len m sent show ?thesis by (intro conjI)
qed

theorem single_hit_alert_witness:
  "parse_urls demo_ext (TARGET_URLS_RAW demo_env) = [''https://a.test'', ''https://b.test'']
   \<and> check_urls demo_ext [''https://a.test'', ''https://b.test'']
         (SEARCH_TEXT demo_env) (CSS_SELECTOR demo_env) []
       = ([''https://a.test''], [''https://b.test''],
          [HttpGet ''https://a.test'', Sleep, HttpGet ''https://b.test'', Sleep])
   \<and> main demo_env demo_ext [] =
       [HttpGet ''https://a.test'', Sleep, HttpGet ''https://b.test'', Sleep,
        SmtpConnect ''smtp.test'' 587, SmtpStartTls, SmtpLogin ''monitor'' ''secret'',
        SmtpSendMessage
          \<lparr>msg_From = ''monitor'', msg_To = ''slava15.92@gmail.com'',
           msg_Subject = ''[ALERT] Found '' @ [CHR 0x27] @ ''SOLD OUT'' @ [CHR 0x27]
                           @ '' on 1/2 URL(s)'',
           msg_content = join [CHR 0x0A]
             [''Search text: '' @ [CHR 0x27] @ ''SOLD OUT'' @ [CHR 0x27],
              ''CSS selector: '' @ [CHR 0x27] @ ''N/A'' @ [CHR 0x27],
              [],
              ''Found on:'',
              ''- https://a.test'',
              [],
              ''Not found on:'',
              ''- https://b.test'',
              [],
              ''Checked by monitor.py'']\<rparr>,
        SmtpQuit]"
proof -
  let ?urls = "[''https://a.test'', ''https://b.test'']"
  let ?tr1 = "[HttpGet ''https://a.test'', Sleep, HttpGet ''https://b.test'', Sleep]"
  have p: "?urls = parse_urls demo_ext (TARGET_URLS_RAW demo_env)"
    by code_simp
  have c: "check_urls demo_ext ?urls (SEARCH_TEXT demo_env) (CSS_SELECTOR demo_env) []
             = ([''https://a.test''], [''https://b.test''], ?tr1)"
    by code_simp
  have st: "SEARCH_TEXT demo_env = ''SOLD OUT''" by code_simp
  have cs: "CSS_SELECTOR demo_env = []" by code_simp
  have rc: "RECIPIENT demo_env = ''slava15.92@gmail.com''" by code_simp
  have n2: "str_nat (length ?urls) = ''2''" by code_simp
  have cfg: "SMTP_SERVER demo_env = Some ''smtp.test'' \<and> SMTP_PORT demo_env = 587
      \<and> SMTP_USER demo_env = Some ''monitor'' \<and> SMTP_PASS demo_env = Some ''secret''"
    by (simp add: SMTP_SERVER_def SMTP_PORT_def SMTP_USER_def SMTP_PASS_def demo_env_def getenv_def)
  have ok: "\<And>m. smtp demo_ext m = NoFault" by (simp add: demo_ext_def)
  note T = single_hit_alert [OF p c, where server = "''smtp.test''" and user = "''monitor''"
      and pass = "''secret''"]
  note B = T [THEN conjunct2, THEN conjunct1]
  note C = T [THEN conjunct2, THEN conjunct2, THEN conjunct1]
  note G = T [THEN conjunct2, THEN conjunct2, THEN conjunct2, THEN conjunct2,
      THEN conjunct2, THEN conjunct2]
  from B have subj: "subject demo_env [''https://a.test''] ?urls =
      ''[ALERT] Found '' @ [CHR 0x27] @ ''SOLD OUT'' @ [CHR 0x27] @ '' on 1/2 URL(s)''"
    unfolding st n2 by simp
  from C have body: "body_lines demo_env [''https://a.test''] [''https://b.test''] =
      [''Search text: '' @ [CHR 0x27] @ ''SOLD OUT'' @ [CHR 0x27],
       ''CSS selector: '' @ [CHR 0x27] @ ''N/A'' @ [CHR 0x27],
       [], ''Found on:'', ''- https://a.test'', [], ''Not found on:'', ''- https://b.test'',
       [], ''Checked by monitor.py'']"
    unfolding st cs by simp
  have pre: "SMTP_SERVER demo_env = Some ''smtp.test'' \<and> ''smtp.test'' \<noteq> []
      \<and> SMTP_PORT demo_env \<noteq> 0
      \<and> SMTP_USER demo_env = Some ''monitor'' \<and> ''monitor'' \<noteq> []
      \<and> SMTP_PASS demo_env = Some ''secret'' \<and> ''secret'' \<noteq> []
      \<and> smtp demo_ext \<lparr>msg_From = ''monitor'', msg_To = RECIPIENT demo_env,
             msg_Subject = subject demo_env [''https://a.test''] ?urls,
             msg_content = join [CHR 0x0A] (body_lines demo_env [''https://a.test''] [''https://b.test''])\<rparr>
          = NoFault"
    using cfg ok by simp
  from G pre have "main demo_env demo_ext [] =
       ?tr1 @ [SmtpConnect ''smtp.test'' (SMTP_PORT demo_env), SmtpStartTls,
               SmtpLogin ''monitor'' ''secret'',
               SmtpSendMessage \<lparr>msg_From = ''monitor'', msg_To = RECIPIENT demo_env,
                 msg_Subject = subject demo_env [''https://a.test''] ?urls,
                 msg_content = join [CHR 0x0A] (body_lines demo_env [''https://a.test''] [''https://b.test''])\<rparr>,
               SmtpQuit]"
    by (rule mp)
  then have m: "main demo_env demo_ext [] =
       ?tr1 @ [SmtpConnect ''smtp.test'' 587, SmtpStartTls,
               SmtpLogin ''monitor'' ''secret'',
               SmtpSendMessage \<lparr>msg_From = ''monitor'', msg_To = ''slava15.92@gmail.com'',
                 msg_Subject = ''[ALERT] Found '' @ [CHR 0x27] @ ''SOLD OUT'' @ [CHR 0x27] @ '' on 1/2 URL(s)'',
                 msg_content = join [CHR 0x0A]
                   [''Search text: '' @ [CHR 0x27] @ ''SOLD OUT'' @ [CHR 0x27],
                    ''CSS selector: '' @ [CHR 0x27] @ ''N/A'' @ [CHR 0x27],
                    [], ''Found on:'', ''- https://a.test'', [], ''Not found on:'', ''- https://b.test'',
                    [], ''Checked by monitor.py'']\<rparr>,
               SmtpQuit]"
    unfolding subj body rc using cfg by simp
  from p c m show ?thesis by simp
qed

end
